theory Spec2Isabelle
  imports Main
begin

section \<open>The sliding-window rate limiter of \<open>app/utils/rate-limit.server.ts\<close>\<close>

text \<open>
  The class \<open>RateLimit\<close> keeps a private map from client keys to arrays of
  timestamps and decides, in \<open>check\<close>, whether a request is admitted.
  Timestamps and the two numeric options are modelled as integers (milliseconds,
  as \<open>Date.now()\<close> yields them); the clock reading is an explicit argument of
  \<open>check\<close>, and the mutated object is returned next to the result.
\<close>

subsection \<open>Data\<close>

text \<open>
  A request is seen only through \<open>request.headers.get(name)\<close>, which yields
  \<open>null\<close> for a header that is absent and the header's value (possibly the
  empty string) otherwise.
\<close>

record Request =
  headers :: "string \<rightharpoonup> string"

record RateLimitOptions =
  windowMs :: int
  maxRequests :: int
  keyGenerator :: "(Request \<Rightarrow> string) option"

record RateLimit =
  options :: RateLimitOptions
  requests :: "string \<rightharpoonup> int list"

datatype error = InvalidConfiguration

subsection \<open>Operations\<close>

text \<open>
  \<open>a || b\<close> on a value that is a string, \<open>null\<close> or \<open>undefined\<close>: the left
  operand when it is truthy (a non-empty string), the right operand otherwise.
\<close>

definition or_else :: "string option \<Rightarrow> string \<Rightarrow> string" where
  "or_else a b = (case a of None \<Rightarrow> b | Some s \<Rightarrow> if s = [] then b else s)"

text \<open>
  \<open>request.headers.get("x-forwarded-for") || request.headers.get("x-real-ip") || "unknown"\<close>
\<close>

definition getIP :: "Request \<Rightarrow> string" where
  "getIP request =
     or_else (headers request ''x-forwarded-for'')
       (or_else (headers request ''x-real-ip'') ''unknown'')"

text \<open>
  The first line of \<open>check\<close>:
  \<open>this.options.keyGenerator?.(request) || this.getIP(request)\<close>.
  The optional call is \<open>undefined\<close> when no generator was supplied.
\<close>

definition clientKey :: "RateLimitOptions \<Rightarrow> Request \<Rightarrow> string" where
  "clientKey opts request =
     or_else (map_option (\<lambda>g. g request) (keyGenerator opts)) (getIP request)"

text \<open>
  The constructor has an empty body: it stores the options, and the field
  initialiser sets \<open>requests\<close> to a new empty map (\<open>fresh\<close>). The
  expression \<open>new RateLimit(opts)\<close> either throws or yields the object; the
  source has no throwing branch.
\<close>

definition fresh :: "RateLimitOptions \<Rightarrow> RateLimit" where
  "fresh opts = \<lparr>options = opts, requests = Map.empty\<rparr>"

definition RateLimit_new :: "RateLimitOptions \<Rightarrow> error + RateLimit" where
  "RateLimit_new opts = Inr (fresh opts)"

text \<open>
  \<open>check\<close>, statement by statement. \<open>requests1\<close> is the map after the
  \<open>if (!this.requests.has(key)) this.requests.set(key, [])\<close>; \<open>filter\<close> builds a new
  array, so the early \<open>return false\<close> leaves the map as \<open>requests1\<close>.
\<close>

definition check :: "RateLimit \<Rightarrow> Request \<Rightarrow> int \<Rightarrow> bool \<times> RateLimit" where
  "check this request now =
     (let key = clientKey (options this) request;
          windowStart = now - windowMs (options this);
          requests1 = (if requests this key = None
                       then (requests this)(key \<mapsto> [])
                       else requests this);
          userRequests = the (requests1 key);
          validRequests = filter (\<lambda>time. time > windowStart) userRequests
      in if int (length validRequests) \<ge> maxRequests (options this)
         then (False, this\<lparr>requests := requests1\<rparr>)
         else (True, this\<lparr>requests := requests1(key \<mapsto> validRequests @ [now])\<rparr>))"

text \<open>
  A sequence of calls of \<open>check\<close> on one limiter, each with the clock reading it
  sees; the results in order and the limiter afterwards.
\<close>

fun run :: "RateLimit \<Rightarrow> (Request \<times> int) list \<Rightarrow> bool list \<times> RateLimit" where
  "run this [] = ([], this)"
| "run this ((request, now) # calls) =
     (let (b, this1) = check this request now;
          (bs, this2) = run this1 calls
      in (b # bs, this2))"

text \<open>The stored sequence of a key, empty when the key has no entry.\<close>

definition stored :: "RateLimit \<Rightarrow> string \<Rightarrow> int list" where
  "stored this key = (case requests this key of None \<Rightarrow> [] | Some xs \<Rightarrow> xs)"

text \<open>
  The timestamps of the calls of one key that returned \<open>true\<close>, given the calls
  and their results.
\<close>

fun admitted :: "RateLimitOptions \<Rightarrow> string \<Rightarrow> (Request \<times> int) list \<Rightarrow> bool list \<Rightarrow> int list" where
  "admitted opts key ((request, now) # calls) (b # bs) =
     (if b \<and> clientKey opts request = key then [now] else []) @ admitted opts key calls bs"
| "admitted opts key _ _ = []"

text \<open>A request carrying only a forwarded-address header.\<close>

definition forwarded :: "string \<Rightarrow> Request" where
  "forwarded v = \<lparr>headers = [''x-forwarded-for'' \<mapsto> v]\<rparr>"

section \<open>Basic facts about one call\<close>

lemma check_options: "options (snd (check this request now)) = options this"
  by (simp add: check_def Let_def)

text \<open>The decision compares the number of stored timestamps inside the window with the maximum.\<close>

lemma check_fst:
  "fst (check this request now) \<longleftrightarrow>
     int (length (filter (\<lambda>time. now - windowMs (options this) < time)
        (stored this (clientKey (options this) request)))) < maxRequests (options this)"
  by (auto simp: check_def Let_def stored_def split: option.splits)

text \<open>The entry of the computed key afterwards: rewritten on admission, left alone on denial.\<close>

lemma check_requests_key:
  "requests (snd (check this request now)) (clientKey (options this) request) =
     Some (if fst (check this request now)
           then filter (\<lambda>time. now - windowMs (options this) < time)
                  (stored this (clientKey (options this) request)) @ [now]
           else stored this (clientKey (options this) request))"
  by (auto simp: check_def Let_def stored_def split: option.splits)

lemma check_requests_other:
  "key \<noteq> clientKey (options this) request \<Longrightarrow>
     requests (snd (check this request now)) key = requests this key"
  by (simp add: check_def Let_def)

lemma check_stored_key:
  "stored (snd (check this request now)) (clientKey (options this) request) =
     (if fst (check this request now)
      then filter (\<lambda>time. now - windowMs (options this) < time)
             (stored this (clientKey (options this) request)) @ [now]
      else stored this (clientKey (options this) request))"
  unfolding stored_def[of "snd (check this request now)"] check_requests_key by simp

lemma check_stored_other:
  "key \<noteq> clientKey (options this) request \<Longrightarrow>
     stored (snd (check this request now)) key = stored this key"
  by (simp add: stored_def check_requests_other)

lemma stored_fresh: "stored (fresh opts) key = []"
  by (simp add: stored_def fresh_def)

lemma getIP_nonempty: "getIP request \<noteq> []"
  by (simp add: getIP_def or_else_def split: option.splits)

section \<open>Sequences of calls\<close>

lemma run_Cons:
  "run this ((request, now) # calls) =
     (fst (check this request now) # fst (run (snd (check this request now)) calls),
      snd (run (snd (check this request now)) calls))"
  by (simp add: split_beta)

lemma run_options: "options (snd (run this calls)) = options this"
proof (induction calls arbitrary: this)
  case Nil
  show ?case by simp
next
  case (Cons c calls)
  obtain request now where c: "c = (request, now)" by (cases c)
  show ?case unfolding c run_Cons snd_conv Cons.IH check_options ..
qed

lemma admitted_Cons:
  "admitted opts key ((request, now) # calls) (b # bs) =
     (if b \<and> clientKey opts request = key then [now] else []) @ admitted opts key calls bs"
  by simp

subsection \<open>Two facts about \<open>filter\<close>\<close>

lemma length_filter_mono:
  "(\<And>x. x \<in> set xs \<Longrightarrow> P x \<Longrightarrow> Q x) \<Longrightarrow> length (filter P xs) \<le> length (filter Q xs)"
  by (induction xs) auto

lemma filter_full_length:
  assumes "length xs \<le> length (filter P xs)"
  shows "filter P xs = xs"
proof -
  have "P x" if "x \<in> set xs" for x
    using length_filter_less[OF that, of P] assms by auto
  then show ?thesis by simp
qed

subsection \<open>The stored sequences stay short\<close>

text \<open>
  An entry is created empty and grows only on admission, by one element past a
  filtered sequence that was shorter than the maximum.
\<close>

lemma check_length_stored:
  assumes "int (length (stored this key)) \<le> max 0 (maxRequests (options this))"
  shows "int (length (stored (snd (check this request now)) key)) \<le> max 0 (maxRequests (options this))"
proof (cases "key = clientKey (options this) request")
  case False
  then show ?thesis using assms by (simp add: check_stored_other)
next
  case True
  show ?thesis
  proof (cases "fst (check this request now)")
    case False
    then show ?thesis using assms True by (simp add: check_stored_key)
  next
    case admit: True
    then have "int (length (filter (\<lambda>time. now - windowMs (options this) < time)
        (stored this key))) < maxRequests (options this)"
      using True by (simp add: check_fst)
    then show ?thesis using admit True by (simp add: check_stored_key)
  qed
qed

lemma run_length_stored:
  "int (length (stored this key)) \<le> max 0 (maxRequests (options this)) \<Longrightarrow>
   int (length (stored (snd (run this calls)) key)) \<le> max 0 (maxRequests (options this))"
proof (induction calls arbitrary: this)
  case Nil
  then show ?case by simp
next
  case (Cons c calls)
  obtain request now where c: "c = (request, now)" by (cases c)
  have "int (length (stored (snd (check this request now)) key))
          \<le> max 0 (maxRequests (options (snd (check this request now))))"
    using check_length_stored[OF Cons.prems] by (simp add: check_options)
  from Cons.IH[OF this] show ?case
    unfolding c run_Cons snd_conv check_options .
qed

subsection \<open>The stored sequences and the history of admissions\<close>

text \<open>
  \<open>h key\<close> is the list of all timestamps admitted for \<open>key\<close> so far, and \<open>T\<close> a
  time no later than the next call. Three facts are kept by every call: the
  history lies in the past; the stored sequence and the history agree on
  everything a later call can still count; every trailing window of the history
  holds at most \<open>maxRequests\<close> timestamps.
\<close>

lemma check_history_step:
  fixes h :: "string \<Rightarrow> int list" and this :: RateLimit and request :: Request and now :: int
  defines "W \<equiv> windowMs (options this)" and "M \<equiv> maxRequests (options this)"
  defines "h' \<equiv> (\<lambda>k. h k @ (if fst (check this request now) \<and> clientKey (options this) request = k then [now] else []))"
  assumes T: "T \<le> now"
    and past: "\<And>k x. x \<in> set (h k) \<Longrightarrow> x \<le> T"
    and agree: "\<And>k c. T - W \<le> c \<Longrightarrow> filter (\<lambda>x. c < x) (stored this k) = filter (\<lambda>x. c < x) (h k)"
    and bound: "\<And>k t. int (length (filter (\<lambda>x. t - W < x \<and> x \<le> t) (h k))) \<le> M"
  shows "(\<forall>k. \<forall>x \<in> set (h' k). x \<le> now)"
    and "(\<forall>k c. now - W \<le> c \<longrightarrow> filter (\<lambda>x. c < x) (stored (snd (check this request now)) k) = filter (\<lambda>x. c < x) (h' k))"
    and "(\<forall>k t. int (length (filter (\<lambda>x. t - W < x \<and> x \<le> t) (h' k))) \<le> M)"
proof -
  let ?key = "clientKey (options this) request"
  let ?b = "fst (check this request now)"
  show "\<forall>k. \<forall>x \<in> set (h' k). x \<le> now"
    using past T by (fastforce simp: h'_def)
  show "\<forall>k c. now - W \<le> c \<longrightarrow> filter (\<lambda>x. c < x) (stored (snd (check this request now)) k) = filter (\<lambda>x. c < x) (h' k)"
  proof (intro allI impI)
    fix k c assume c: "now - W \<le> c"
    then have c': "T - W \<le> c" using T by simp
    show "filter (\<lambda>x. c < x) (stored (snd (check this request now)) k) = filter (\<lambda>x. c < x) (h' k)"
    proof (cases "?b \<and> ?key = k")
      case False
      then have "stored (snd (check this request now)) k = stored this k"
        by (cases "k = ?key") (auto simp: check_stored_other check_stored_key)
      with False agree[OF c'] show ?thesis by (simp add: h'_def)
    next
      case True
      then have st: "stored (snd (check this request now)) k =
          filter (\<lambda>time. now - W < time) (stored this k) @ [now]"
        using check_stored_key[of this request now] by (auto simp: W_def)
      have "filter (\<lambda>x. c < x) (filter (\<lambda>time. now - W < time) (stored this k))
            = filter (\<lambda>x. c < x) (stored this k)"
        using c by (auto intro: filter_cong)
      with True agree[OF c'] show ?thesis by (simp add: st h'_def)
    qed
  qed
  show "\<forall>k t. int (length (filter (\<lambda>x. t - W < x \<and> x \<le> t) (h' k))) \<le> M"
  proof (intro allI)
    fix k t
    show "int (length (filter (\<lambda>x. t - W < x \<and> x \<le> t) (h' k))) \<le> M"
    proof (cases "?b \<and> ?key = k")
      case False
      then have "h' k = h k" by (auto simp: h'_def)
      with bound[of t k] show ?thesis by simp
    next
      case True
      show ?thesis
      proof (cases "now \<le> t")
        case False
        with True bound[of t k] show ?thesis by (simp add: h'_def)
      next
        case late: True
        have "length (filter (\<lambda>x. t - W < x \<and> x \<le> t) (h k))
                \<le> length (filter (\<lambda>x. now - W < x) (h k))"
          using late by (intro length_filter_mono) simp
        also have "filter (\<lambda>x. now - W < x) (h k) = filter (\<lambda>x. now - W < x) (stored this k)"
          using agree[of "now - W" k] T by simp
        finally have "int (length (filter (\<lambda>x. t - W < x \<and> x \<le> t) (h k))) < M"
          using True check_fst[of this request now] by (auto simp: W_def M_def)
        then show ?thesis using True by (simp add: h'_def)
      qed
    qed
  qed
qed

lemma run_history:
  fixes h :: "string \<Rightarrow> int list"
  assumes "sorted (map snd calls)"
    and "\<forall>c \<in> set calls. T \<le> snd c"
    and "\<forall>k. \<forall>x \<in> set (h k). x \<le> T"
    and "\<forall>k c. T - windowMs (options this) \<le> c \<longrightarrow>
            filter (\<lambda>x. c < x) (stored this k) = filter (\<lambda>x. c < x) (h k)"
    and "\<forall>k t. int (length (filter (\<lambda>x. t - windowMs (options this) < x \<and> x \<le> t) (h k)))
            \<le> maxRequests (options this)"
  shows "int (length (filter (\<lambda>x. t - windowMs (options this) < x \<and> x \<le> t)
           (h key @ admitted (options this) key calls (fst (run this calls)))))
         \<le> maxRequests (options this)"
  using assms
proof (induction calls arbitrary: this h T)
  case Nil
  then show ?case by simp
next
  case (Cons c calls)
  obtain request now where c: "c = (request, now)" by (cases c)
  let ?this1 = "snd (check this request now)"
  let ?h1 = "\<lambda>k. h k @ (if fst (check this request now) \<and> clientKey (options this) request = k
                         then [now] else [])"
  have T: "T \<le> now" using Cons.prems(2) c by simp
  note step = check_history_step[OF T, of h this request]
  have 1: "sorted (map snd calls)" using Cons.prems(1) by simp
  have 2: "\<forall>c \<in> set calls. now \<le> snd c" using Cons.prems(1) c by auto
  have 3: "\<forall>k. \<forall>x \<in> set (?h1 k). x \<le> now"
    using step(1) Cons.prems(3-5) by blast
  have 4: "\<forall>k c. now - windowMs (options ?this1) \<le> c \<longrightarrow>
            filter (\<lambda>x. c < x) (stored ?this1 k) = filter (\<lambda>x. c < x) (?h1 k)"
    unfolding check_options using step(2) Cons.prems(3-5) by blast
  have 5: "\<forall>k t. int (length (filter (\<lambda>x. t - windowMs (options ?this1) < x \<and> x \<le> t) (?h1 k)))
            \<le> maxRequests (options ?this1)"
    unfolding check_options using step(3) Cons.prems(3-5) by blast
  from Cons.IH[OF 1 2 3 4 5]
  show ?case unfolding c run_Cons fst_conv admitted_Cons check_options by simp
qed

subsection \<open>Equal keys and timestamps give equal decisions\<close>

lemma check_same_key:
  assumes "windowMs (options a) = windowMs (options b)"
    and "maxRequests (options a) = maxRequests (options b)"
    and "clientKey (options a) ra = clientKey (options b) rb"
    and "requests a = requests b"
  shows "fst (check a ra now) = fst (check b rb now) \<and>
         requests (snd (check a ra now)) = requests (snd (check b rb now))"
  using assms by (simp add: check_def Let_def)

section \<open>Properties\<close>

text \<open>
  C1 (admission bound). For any client key and any sequence of \<open>check\<close> calls with
  strictly increasing timestamps on a new limiter with a non-negative
  \<open>maxRequests\<close>, the calls of that key that returned \<open>true\<close> and whose timestamps
  lie in a trailing window \<open>(t - windowMs, t]\<close> number at most \<open>maxRequests\<close>,
  for every \<open>t\<close>. Calls for other keys may be interleaved.
\<close>

theorem admission_bound:
  assumes "sorted_wrt (<) (map snd calls)" and "0 \<le> maxRequests opts"
  shows "int (length (filter (\<lambda>x. t - windowMs opts < x \<and> x \<le> t)
           (admitted opts key calls (fst (run (fresh opts) calls)))))
         \<le> maxRequests opts"
proof -
  have s: "sorted (map snd calls)"
    using assms(1) by (simp add: sorted_wrt_mono_rel[of _ "(<)" "(\<le>)"])
  obtain T where T: "\<forall>c \<in> set calls. T \<le> snd c"
  proof (cases calls)
    case Nil
    then show ?thesis using that by simp
  next
    case (Cons c cs)
    then show ?thesis using that[of "snd c"] s by auto
  qed
  have "int (length (filter (\<lambda>x. t - windowMs (options (fresh opts)) < x \<and> x \<le> t)
           ((\<lambda>k. []) key @ admitted (options (fresh opts)) key calls (fst (run (fresh opts) calls)))))
         \<le> maxRequests (options (fresh opts))"
    by (rule run_history[OF s T]) (simp_all add: stored_fresh, simp add: fresh_def assms(2))
  then show ?thesis by (simp add: fresh_def)
qed

text \<open>C1 at the calls of the scenario, for the window ending at 1001.\<close>

theorem admission_bound_witness:
  "sorted_wrt (<) (map snd (map (\<lambda>t. (forwarded ''k'', t)) [0, 100, 200, 900, 1001 :: int]))
   \<and> 0 \<le> maxRequests \<lparr>windowMs = 1000, maxRequests = 3, keyGenerator = None\<rparr>
   \<and> int (length (filter
        (\<lambda>x. 1001 - windowMs \<lparr>windowMs = 1000, maxRequests = 3, keyGenerator = None\<rparr> < x \<and> x \<le> 1001)
        (admitted \<lparr>windowMs = 1000, maxRequests = 3, keyGenerator = None\<rparr> ''k''
           (map (\<lambda>t. (forwarded ''k'', t)) [0, 100, 200, 900, 1001])
           (fst (run (fresh \<lparr>windowMs = 1000, maxRequests = 3, keyGenerator = None\<rparr>)
                  (map (\<lambda>t. (forwarded ''k'', t)) [0, 100, 200, 900, 1001]))))))
     \<le> maxRequests \<lparr>windowMs = 1000, maxRequests = 3, keyGenerator = None\<rparr>"
proof -
  have h1: "sorted_wrt (<) (map snd (map (\<lambda>t. (forwarded ''k'', t)) [0, 100, 200, 900, 1001 :: int]))"
    by simp
  have h2: "0 \<le> maxRequests \<lparr>windowMs = 1000, maxRequests = 3, keyGenerator = None\<rparr>"
    by simp
  show ?thesis
    by (intro conjI h1 h2 admission_bound[OF h1 h2])
qed

text \<open>
  C2 (pruning on every call). In every state a limiter can reach, after a call of
  \<open>check\<close> the stored sequence of the computed key is the filtered sequence, with
  the new timestamp appended exactly when the call returned \<open>true\<close>. In
  particular, after a call that returned \<open>false\<close> the stored sequence holds no
  timestamp at or before the window start. (The early \<open>return false\<close> writes
  nothing, but a denial needs \<open>maxRequests\<close> valid timestamps and a stored
  sequence is never longer than that, so the filter removes nothing then.)
\<close>

theorem stored_is_pruned:
  assumes "this = snd (run (fresh opts) calls)"
  shows "requests (snd (check this request now)) (clientKey (options this) request) =
           Some (filter (\<lambda>time. time > now - windowMs (options this))
                   (stored this (clientKey (options this) request))
                 @ (if fst (check this request now) then [now] else []))
         \<and> (\<not> fst (check this request now) \<longrightarrow>
              (\<forall>time \<in> set (stored (snd (check this request now)) (clientKey (options this) request)).
                 time > now - windowMs (options this)))"
proof (cases "fst (check this request now)")
  case True
  then show ?thesis by (simp add: check_requests_key)
next
  case False
  let ?key = "clientKey (options this) request"
  let ?valid = "filter (\<lambda>time. now - windowMs (options this) < time) (stored this ?key)"
  have "int (length (stored (fresh opts) ?key)) \<le> max 0 (maxRequests (options (fresh opts)))"
    by (simp add: stored_fresh)
  from run_length_stored[OF this, of calls]
  have "int (length (stored this ?key)) \<le> max 0 (maxRequests (options this))"
    by (simp add: assms run_options)
  moreover have "maxRequests (options this) \<le> int (length ?valid)"
    using False by (simp add: check_fst)
  ultimately have "length (stored this ?key) \<le> length ?valid" by linarith
  then have valid: "?valid = stored this ?key"
    by (rule filter_full_length)
  have "\<forall>time \<in> set ?valid. now - windowMs (options this) < time" by simp
  then have "\<forall>time \<in> set (stored this ?key). now - windowMs (options this) < time"
    unfolding valid .
  then show ?thesis using False valid by (simp add: check_requests_key check_stored_key)
qed

text \<open>C2 at a denial: one request allowed per second, a second call half a second later.\<close>

theorem stored_is_pruned_witness:
  "requests (snd (check (snd (run (fresh \<lparr>windowMs = 1000, maxRequests = 1, keyGenerator = None\<rparr>)
                               [(forwarded ''k'', 0)]))
                   (forwarded ''k'') 500)) ''k'' = Some [0]
   \<and> \<not> fst (check (snd (run (fresh \<lparr>windowMs = 1000, maxRequests = 1, keyGenerator = None\<rparr>)
                               [(forwarded ''k'', 0)]))
                   (forwarded ''k'') 500)"
  using stored_is_pruned[OF refl,
      of "\<lparr>windowMs = 1000, maxRequests = 1, keyGenerator = None\<rparr>" "[(forwarded ''k'', 0)]"
         "forwarded ''k''" 500]
  by (simp add: fresh_def forwarded_def check_def clientKey_def getIP_def or_else_def Let_def
        stored_def)

text \<open>
  C3 (counterexample). Constructing a limiter with \<open>maxRequests = 0\<close>, or with a
  negative \<open>windowMs\<close>, does not fail with \<open>InvalidConfiguration\<close>.
\<close>

theorem constructor_accepts_invalid:
  "RateLimit_new \<lparr>windowMs = 1000, maxRequests = 0, keyGenerator = None\<rparr> \<noteq> Inl InvalidConfiguration
   \<and> RateLimit_new \<lparr>windowMs = - 1, maxRequests = 3, keyGenerator = None\<rparr> \<noteq> Inl InvalidConfiguration"
  by (simp add: RateLimit_new_def)

text \<open>
  C3 (as amended). Constructing a limiter never fails, whatever \<open>windowMs\<close> and
  \<open>maxRequests\<close> are: it yields a limiter that holds the given options and an
  empty request map.
\<close>

theorem constructor_never_fails:
  "\<exists>this. RateLimit_new opts = Inr this \<and> options this = opts \<and> requests this = Map.empty"
  by (simp add: RateLimit_new_def fresh_def)

text \<open>
  C4. With a window of 1000 ms and at most 3 requests, five calls for the key
  \<open>k\<close> at times 0, 100, 200, 900 and 1001 return true, true, true, false, true.
\<close>

theorem scenario_1000_3:
  "fst (run (fresh \<lparr>windowMs = 1000, maxRequests = 3, keyGenerator = None\<rparr>)
          (map (\<lambda>t. (forwarded ''k'', t)) [0, 100, 200, 900, 1001]))
   = [True, True, True, False, True]"
  by (simp add: fresh_def forwarded_def check_def clientKey_def getIP_def or_else_def Let_def)

text \<open>
  C5 (boundary exclusion). A stored timestamp equal to the window start
  \<open>now - windowMs\<close> does not count as a valid request: \<open>check\<close> decides as it
  would without that timestamp, and on admission it leaves the limiter exactly as
  it would without it, so the timestamp is treated as expired.
\<close>

theorem boundary_timestamp_expired:
  assumes "requests this (clientKey (options this) request) =
             Some (ys @ [now - windowMs (options this)] @ zs)"
  shows "fst (check this request now) =
           fst (check (this\<lparr>requests := (requests this)(clientKey (options this) request \<mapsto> ys @ zs)\<rparr>)
                  request now)
         \<and> (fst (check this request now) \<longrightarrow>
              snd (check this request now) =
              snd (check (this\<lparr>requests := (requests this)(clientKey (options this) request \<mapsto> ys @ zs)\<rparr>)
                     request now))"
  using assms by (simp add: check_def Let_def)

text \<open>
  C5 at the boundary: with one request allowed per 1000 ms and a request stored
  at time 0, the call at time 1000 is admitted and only its own timestamp stays.
\<close>

theorem boundary_timestamp_expired_witness:
  "requests \<lparr>options = \<lparr>windowMs = 1000, maxRequests = 1, keyGenerator = None\<rparr>,
             requests = [''k'' \<mapsto> [0]]\<rparr> ''k'' = Some ([] @ [1000 - 1000] @ [])
   \<and> check \<lparr>options = \<lparr>windowMs = 1000, maxRequests = 1, keyGenerator = None\<rparr>,
             requests = [''k'' \<mapsto> [0]]\<rparr> (forwarded ''k'') 1000
     = (True, \<lparr>options = \<lparr>windowMs = 1000, maxRequests = 1, keyGenerator = None\<rparr>,
             requests = [''k'' \<mapsto> [1000]]\<rparr>)"
  using boundary_timestamp_expired[of
      "\<lparr>options = \<lparr>windowMs = 1000, maxRequests = 1, keyGenerator = None\<rparr>,
             requests = [''k'' \<mapsto> [0]]\<rparr>" "forwarded ''k''" "[]" 1000 "[]"]
  by (simp add: check_def Let_def clientKey_def getIP_def or_else_def forwarded_def)

text \<open>
  C6 (counterexample). Without a key generator, a request whose forwarded-address
  header is present with the empty string as its value and whose real-address
  header is \<open>10.0.0.1\<close> gets the key \<open>10.0.0.1\<close>, not the value of the
  forwarded-address header.
\<close>

theorem empty_forwarded_header_skipped:
  "headers \<lparr>headers = [''x-forwarded-for'' \<mapsto> '''', ''x-real-ip'' \<mapsto> ''10.0.0.1'']\<rparr>
     ''x-forwarded-for'' = Some ''''
   \<and> clientKey \<lparr>windowMs = 1000, maxRequests = 3, keyGenerator = None\<rparr>
       \<lparr>headers = [''x-forwarded-for'' \<mapsto> '''', ''x-real-ip'' \<mapsto> ''10.0.0.1'']\<rparr> = ''10.0.0.1''"
  by (simp add: clientKey_def getIP_def or_else_def)

text \<open>
  C6 (as amended). Without a key generator, the client key is the value of the
  forwarded-address header when that header is present and not empty; otherwise
  the value of the real-address header when that one is present and not empty;
  otherwise the literal string \<open>unknown\<close>.
\<close>

theorem default_key:
  assumes "keyGenerator opts = None"
  shows "clientKey opts request =
     (if headers request ''x-forwarded-for'' \<notin> {None, Some ''''}
      then the (headers request ''x-forwarded-for'')
      else if headers request ''x-real-ip'' \<notin> {None, Some ''''}
      then the (headers request ''x-real-ip'')
      else ''unknown'')"
  using assms by (auto simp: clientKey_def getIP_def or_else_def split: option.splits)

text \<open>C6 as amended, at a request with only a real-address header.\<close>

theorem default_key_witness:
  "keyGenerator \<lparr>windowMs = 1000, maxRequests = 3, keyGenerator = None\<rparr> = None
   \<and> clientKey \<lparr>windowMs = 1000, maxRequests = 3, keyGenerator = None\<rparr>
       \<lparr>headers = [''x-real-ip'' \<mapsto> ''10.0.0.1'']\<rparr> = ''10.0.0.1''"
  using default_key[of "\<lparr>windowMs = 1000, maxRequests = 3, keyGenerator = None\<rparr>"
      "\<lparr>headers = [''x-real-ip'' \<mapsto> ''10.0.0.1'']\<rparr>"]
  by simp

text \<open>
  C7 (independence across keys). A call of \<open>check\<close> leaves the entry of every key
  other than the computed one as it was; and its result and the new entry of its
  own key are the same in any two limiters with the same options that agree on
  that key's entry, whatever they hold for other keys.
\<close>

theorem key_independence:
  "(\<forall>key. key \<noteq> clientKey (options this) request \<longrightarrow>
       requests (snd (check this request now)) key = requests this key) \<and>
   (options other = options this \<and>
    requests other (clientKey (options this) request) = requests this (clientKey (options this) request) \<longrightarrow>
       fst (check other request now) = fst (check this request now) \<and>
       requests (snd (check other request now)) (clientKey (options this) request) =
       requests (snd (check this request now)) (clientKey (options this) request))"
  by (auto simp: check_def Let_def)

text \<open>
  C7 with the budget of key \<open>A\<close> exhausted at time 5: the call for key \<open>B\<close> at the
  same instant is admitted as on a new limiter, and the entry of \<open>A\<close> stays.
\<close>

theorem key_independence_witness:
  "fst (run (fresh \<lparr>windowMs = 1000, maxRequests = 1, keyGenerator = None\<rparr>)
          [(forwarded ''A'', 5), (forwarded ''A'', 5)]) = [True, False]
   \<and> fst (check (snd (run (fresh \<lparr>windowMs = 1000, maxRequests = 1, keyGenerator = None\<rparr>)
                         [(forwarded ''A'', 5), (forwarded ''A'', 5)]))
             (forwarded ''B'') 5)
     = fst (check (fresh \<lparr>windowMs = 1000, maxRequests = 1, keyGenerator = None\<rparr>)
             (forwarded ''B'') 5)
   \<and> requests (snd (check (snd (run (fresh \<lparr>windowMs = 1000, maxRequests = 1, keyGenerator = None\<rparr>)
                         [(forwarded ''A'', 5), (forwarded ''A'', 5)]))
             (forwarded ''B'') 5)) ''A'' = Some [5]"
proof -
  let ?opts = "\<lparr>windowMs = 1000, maxRequests = 1, keyGenerator = None\<rparr>"
  let ?lim = "snd (run (fresh ?opts) [(forwarded ''A'', 5), (forwarded ''A'', 5)])"
  have key: "clientKey (options ?lim) (forwarded ''B'') = ''B''"
    unfolding run_options
    by (simp add: fresh_def clientKey_def getIP_def or_else_def forwarded_def)
  have lim: "requests ?lim = [''A'' \<mapsto> [5]]"
    by (simp add: fresh_def forwarded_def check_def clientKey_def getIP_def or_else_def Let_def)
  have hyp: "options (fresh ?opts) = options ?lim \<and>
        requests (fresh ?opts) (clientKey (options ?lim) (forwarded ''B''))
        = requests ?lim (clientKey (options ?lim) (forwarded ''B''))"
    by (simp only: lim run_options)
       (simp add: fresh_def clientKey_def getIP_def or_else_def forwarded_def)
  have other: "''A'' \<noteq> clientKey (options ?lim) (forwarded ''B'')"
    by (simp only: key) simp
  have res: "fst (run (fresh ?opts) [(forwarded ''A'', 5), (forwarded ''A'', 5)]) = [True, False]"
    by (simp add: fresh_def forwarded_def check_def clientKey_def getIP_def or_else_def Let_def)
  from key_independence[of ?lim "forwarded ''B''" 5 "fresh ?opts"] hyp other lim res
  show ?thesis by simp
qed

text \<open>
  C8 (determinism). Two limiters constructed with the same window and maximum,
  fed call sequences that agree call by call in client key and timestamp, give
  the same sequence of results; so do, in particular, two limiters with identical
  configuration fed identical requests.
\<close>

theorem run_deterministic:
  assumes "windowMs opts1 = windowMs opts2"
    and "maxRequests opts1 = maxRequests opts2"
    and "map (\<lambda>(request, now). (clientKey opts1 request, now)) calls1 =
         map (\<lambda>(request, now). (clientKey opts2 request, now)) calls2"
  shows "fst (run (fresh opts1) calls1) = fst (run (fresh opts2) calls2)"
proof -
  have "\<lbrakk>options a = opts1; options b = opts2; requests a = requests b;
         map (\<lambda>(request, now). (clientKey opts1 request, now)) calls1 =
         map (\<lambda>(request, now). (clientKey opts2 request, now)) calls2\<rbrakk>
        \<Longrightarrow> fst (run a calls1) = fst (run b calls2)" for a b
  proof (induction calls1 arbitrary: calls2 a b)
    case Nil
    then show ?case by simp
  next
    case (Cons c1 calls1)
    obtain r1 now where c1: "c1 = (r1, now)" by (cases c1)
    obtain c2 rest2 where calls2: "calls2 = c2 # rest2" using Cons.prems(4) by (cases calls2) auto
    obtain r2 now2 where c2: "c2 = (r2, now2)" by (cases c2)
    have k: "clientKey opts1 r1 = clientKey opts2 r2" and n: "now2 = now"
      and rest: "map (\<lambda>(request, now). (clientKey opts1 request, now)) calls1 =
         map (\<lambda>(request, now). (clientKey opts2 request, now)) rest2"
      using Cons.prems(4) by (simp_all add: c1 c2 calls2)
    have st: "fst (check a r1 now) = fst (check b r2 now) \<and>
         requests (snd (check a r1 now)) = requests (snd (check b r2 now))"
      by (rule check_same_key) (simp_all add: Cons.prems(1-3) assms(1,2) k)
    have "fst (run (snd (check a r1 now)) calls1) = fst (run (snd (check b r2 now)) rest2)"
      by (rule Cons.IH) (simp_all add: check_options Cons.prems(1,2) st rest)
    then show ?case unfolding calls2 c1 c2 n run_Cons fst_conv using st by simp
  qed
  from this[of "fresh opts1" "fresh opts2"] assms(3) show ?thesis by (simp add: fresh_def)
qed

text \<open>
  C8 with identical window and maximum: one limiter reads the key \<open>k\<close> from the
  forwarded-address header, the other gets it from a key generator.
\<close>

theorem run_deterministic_witness:
  "fst (run (fresh \<lparr>windowMs = 1000, maxRequests = 3, keyGenerator = None\<rparr>)
          (map (\<lambda>t. (forwarded ''k'', t)) [0, 100, 200, 900, 1001]))
   = fst (run (fresh \<lparr>windowMs = 1000, maxRequests = 3, keyGenerator = Some (\<lambda>r. ''k'')\<rparr>)
          (map (\<lambda>t. (\<lparr>headers = Map.empty\<rparr>, t)) [0, 100, 200, 900, 1001]))"
  by (rule run_deterministic)
     (simp_all add: clientKey_def getIP_def or_else_def forwarded_def)

text \<open>
  C9 (bounded sequences). After any sequence of \<open>check\<close> calls on a new limiter
  with a non-negative \<open>maxRequests\<close>, the stored sequence of every key has at
  most \<open>maxRequests\<close> elements.
\<close>

theorem stored_length_bounded:
  assumes "0 \<le> maxRequests opts"
  shows "int (length (stored (snd (run (fresh opts) calls)) key)) \<le> maxRequests opts"
proof -
  have "int (length (stored (fresh opts) key)) \<le> max 0 (maxRequests (options (fresh opts)))"
    by (simp add: stored_fresh)
  from run_length_stored[OF this] have
    "int (length (stored (snd (run (fresh opts) calls)) key)) \<le> max 0 (maxRequests opts)"
    by (simp add: fresh_def)
  with assms show ?thesis by simp
qed

text \<open>C9 after the five calls of the scenario.\<close>

theorem stored_length_bounded_witness:
  "0 \<le> maxRequests \<lparr>windowMs = 1000, maxRequests = 3, keyGenerator = None\<rparr>
   \<and> int (length (stored (snd (run (fresh \<lparr>windowMs = 1000, maxRequests = 3, keyGenerator = None\<rparr>)
          (map (\<lambda>t. (forwarded ''k'', t)) [0, 100, 200, 900, 1001]))) ''k''))
     \<le> maxRequests \<lparr>windowMs = 1000, maxRequests = 3, keyGenerator = None\<rparr>"
proof -
  have h: "0 \<le> maxRequests \<lparr>windowMs = 1000, maxRequests = 3, keyGenerator = None\<rparr>"
    by simp
  show ?thesis
    by (intro conjI h stored_length_bounded[OF h])
qed

text \<open>
  C10 (empty generated key). When a supplied key generator returns the empty
  string for a request, the client key is the one extracted from the headers,
  and it is not the empty string.
\<close>

theorem empty_generated_key_falls_back:
  assumes "keyGenerator opts = Some g" and "g request = []"
  shows "clientKey opts request = getIP request \<and> clientKey opts request \<noteq> []"
  using assms by (simp add: clientKey_def or_else_def getIP_nonempty)

text \<open>C10 with a generator that always returns the empty string.\<close>

theorem empty_generated_key_falls_back_witness:
  "keyGenerator \<lparr>windowMs = 1000, maxRequests = 3, keyGenerator = Some (\<lambda>r. '''')\<rparr> = Some (\<lambda>r. '''')
   \<and> (\<lambda>r. '''') \<lparr>headers = [''x-real-ip'' \<mapsto> ''10.0.0.1'']\<rparr> = ''''
   \<and> clientKey \<lparr>windowMs = 1000, maxRequests = 3, keyGenerator = Some (\<lambda>r. '''')\<rparr>
       \<lparr>headers = [''x-real-ip'' \<mapsto> ''10.0.0.1'']\<rparr> = ''10.0.0.1''"
  using empty_generated_key_falls_back[of
      "\<lparr>windowMs = 1000, maxRequests = 3, keyGenerator = Some (\<lambda>r. '''')\<rparr>" "\<lambda>r. ''''"
      "\<lparr>headers = [''x-real-ip'' \<mapsto> ''10.0.0.1'']\<rparr>"]
  by (simp add: getIP_def or_else_def)

end
